theory Spec2Isabelle
  imports Complex_Main "HOL-Library.Sublist"
begin

section \<open>Python primitives used by the notebook\<close>

text \<open>
  Texts are Python \<open>str\<close> values, modelled as \<^typ>\<open>string\<close> (a list of characters with
  code points below 256). Integers are Python's unbounded \<open>int\<close>, modelled as \<^typ>\<open>int\<close>.
\<close>

text \<open>
  \<open>str.isspace\<close> on one character, for the code points below 256: the ASCII controls
  9..13 and 28..31, the blank 32, and the Latin-1 characters 133 (NEL) and 160 (NBSP).
\<close>

definition isspace :: "char \<Rightarrow> bool" where
  "isspace c = (let n = (of_char c :: nat) in
     (9 \<le> n \<and> n \<le> 13) \<or> (28 \<le> n \<and> n \<le> 32) \<or> n = 133 \<or> n = 160)"

text \<open>
  \<open>str.split()\<close> with no separator: runs of whitespace separate the words, leading and
  trailing whitespace is dropped, and no empty word is produced. The first argument is
  the word being read.
\<close>

fun split_go :: "string \<Rightarrow> string \<Rightarrow> string list" where
  "split_go w [] = (if w = [] then [] else [w])"
| "split_go w (c # cs) =
     (if isspace c then (if w = [] then split_go [] cs else w # split_go [] cs)
      else split_go (w @ [c]) cs)"

definition split :: "string \<Rightarrow> string list" where
  "split text = split_go [] text"

text \<open>\<open>sep.join(xs)\<close>: the elements of \<open>xs\<close> with \<open>sep\<close> between neighbours.\<close>

fun join :: "string \<Rightarrow> string list \<Rightarrow> string" where
  "join sep [] = []"
| "join sep [x] = x"
| "join sep (x # y # ys) = x @ sep @ join sep (y # ys)"

text \<open>
  A slice bound as Python normalises it for a sequence of length \<open>n\<close>: a negative bound
  counts from the end, and the result is clamped to \<open>0..n\<close>.
\<close>

definition slice_bound :: "int \<Rightarrow> int \<Rightarrow> nat" where
  "slice_bound n i = nat (max 0 (min n (if i < 0 then i + n else i)))"

text \<open>\<open>xs[i:j]\<close>; it never raises, and is empty when the bounds cross.\<close>

definition py_slice :: "'a list \<Rightarrow> int \<Rightarrow> int \<Rightarrow> 'a list" where
  "py_slice xs i j =
     (let n = int (length xs); lo = slice_bound n i; hi = slice_bound n j
      in take (hi - lo) (drop lo xs))"

section \<open>The chunker\<close>

text \<open>
  \<^verbatim>\<open>
  def chunk_text(text, chunk_size=500, overlap=50):
      words = text.split()
      chunks = []
      start = 0
      while start < len(words):
          end = min(start + chunk_size, len(words))
          chunk = " ".join(words[start:end])
          chunks.append(chunk)
          start += (chunk_size - overlap)
      return chunks
  \<close>
  The loop state is \<open>(chunks, start)\<close>. The source has no bound on the number of
  iterations, so the loop is a partial function: \<open>None\<close> is the loop that never returns,
  \<open>Some chunks\<close> is the returned list. Nothing in the function raises.
\<close>

partial_function (option) chunk_loop ::
  "string list \<Rightarrow> int \<Rightarrow> int \<Rightarrow> string list \<Rightarrow> int \<Rightarrow> string list option" where
  "chunk_loop words chunk_size overlap chunks start =
     (if start < int (length words) then
        (let end = min (start + chunk_size) (int (length words));
             chunk = join '' '' (py_slice words start end)
         in chunk_loop words chunk_size overlap (chunks @ [chunk])
              (start + (chunk_size - overlap)))
      else Some chunks)"

declare chunk_loop.simps [code]

definition chunk_text :: "string \<Rightarrow> int \<Rightarrow> int \<Rightarrow> string list option" where
  "chunk_text text chunk_size overlap = chunk_loop (split text) chunk_size overlap [] 0"

text \<open>
  The window starts the loop visits from \<open>start\<close> on, for a positive step: \<open>start\<close>,
  \<open>start + step\<close>, ... while below the word count \<open>n\<close>. The loop itself is
  \<open>chunk_loop\<close>; this total function describes its iterations in the proofs.
\<close>

function window_starts :: "int \<Rightarrow> int \<Rightarrow> int \<Rightarrow> int list" where
  "window_starts n step start =
     (if 0 < step \<and> start < n then start # window_starts n step (start + step) else [])"
  by pat_completeness auto
termination
  by (relation "measure (\<lambda>(n, step, start). nat (n - start))") auto

declare window_starts.simps [simp del]

text \<open>The words of the window that starts at \<open>start\<close>: \<open>words[start:end]\<close> of the loop body.\<close>

definition window :: "string list \<Rightarrow> int \<Rightarrow> int \<Rightarrow> string list" where
  "window words chunk_size start =
     py_slice words start (min (start + chunk_size) (int (length words)))"

text \<open>Ceiling of \<open>a / b\<close> on integers, for \<open>b > 0\<close>.\<close>

definition ceil_div :: "int \<Rightarrow> int \<Rightarrow> int" where
  "ceil_div a b = - ((- a) div b)"

text \<open>A word as \<open>split\<close> produces it: not empty, and free of whitespace.\<close>

definition is_word :: "string \<Rightarrow> bool" where
  "is_word w = (w \<noteq> [] \<and> list_all (\<lambda>c. \<not> isspace c) w)"

text \<open>
  Reading a chunk sequence back as words, with the overlaps collapsed: all words of the
  first chunk, then the words of every later chunk but its first \<open>overlap\<close> ones, which
  it shares with the chunk before it.
\<close>

fun collapse_overlaps :: "int \<Rightarrow> string list \<Rightarrow> string list" where
  "collapse_overlaps overlap [] = []"
| "collapse_overlaps overlap (c # cs) =
     split c @ concat (map (\<lambda>d. drop (nat overlap) (split d)) cs)"

text \<open>
  The chunk count the specification states: \<open>ceil((n - O) / (W - O))\<close> for \<open>n > W\<close>
  words and 1 for \<open>0 < n \<le> W\<close>.
\<close>

definition stated_chunk_count :: "int \<Rightarrow> int \<Rightarrow> int \<Rightarrow> int" where
  "stated_chunk_count n chunk_size overlap =
     (if chunk_size < n then ceil_div (n - overlap) (chunk_size - overlap) else 1)"

section \<open>The extractor\<close>

definition newline :: char where
  "newline = CHR 0x0A"

text \<open>\<open>str(n)\<close> for a natural number: its decimal digits.\<close>

definition digit_char :: "nat \<Rightarrow> char" where
  "digit_char d = char_of (48 + d)"

fun str_nat :: "nat \<Rightarrow> string" where
  "str_nat n = (if n < 10 then [digit_char n] else str_nat (n div 10) @ [digit_char (n mod 10)])"

declare str_nat.simps [simp del]

text \<open>
  \<^verbatim>\<open>
  def extract_text_from_pdf(pdf_path):
      text = ""
      with open(pdf_path, "rb") as file:
          pdf_reader = PyPDF2.PdfReader(file)
          for i, page in enumerate(pdf_reader.pages):
              page_text = page.extract_text()
              if page_text:
                  text += f"\n--- Page {i+1} ---\n" + page_text
      return text
  \<close>
  The PDF is given by what \<open>page.extract_text()\<close> yields for each of its pages, in page
  order. The loop state is the index \<open>i\<close> of \<open>enumerate\<close> and the text so far.
\<close>

definition page_marker :: "nat \<Rightarrow> string" where
  "page_marker i = [newline] @ ''--- Page '' @ str_nat (i + 1) @ '' ---'' @ [newline]"

fun extract_loop :: "nat \<Rightarrow> string list \<Rightarrow> string \<Rightarrow> string" where
  "extract_loop i [] text = text"
| "extract_loop i (page_text # pages) text =
     extract_loop (i + 1) pages
       (if page_text \<noteq> [] then text @ page_marker i @ page_text else text)"

definition extract_text_from_pdf :: "string list \<Rightarrow> string" where
  "extract_text_from_pdf pages = extract_loop 0 pages []"

text \<open>The number of positions of a text at which \<open>pat\<close> occurs.\<close>

fun count_occurrences :: "string \<Rightarrow> string \<Rightarrow> nat" where
  "count_occurrences pat [] = (if pat = [] then 1 else 0)"
| "count_occurrences pat (c # cs) =
     (if prefix pat (c # cs) then 1 else 0) + count_occurrences pat cs"

section \<open>The indexer and the retriever\<close>

text \<open>
  Embeddings are vectors of numbers of a fixed length; the components are idealised as
  real numbers. The embedding model is a parameter: a function from a text to its vector.
  \<open>embedder.encode(texts)\<close> embeds each text of a batch.
\<close>

type_synonym vec = "real list"

definition encode :: "(string \<Rightarrow> vec) \<Rightarrow> string list \<Rightarrow> vec list" where
  "encode embedder texts = map embedder texts"

datatype error = IndexError | AssertionError

text \<open>Squared Euclidean distance, the score of a flat L2 index, and the distance itself.\<close>

definition l2sq :: "vec \<Rightarrow> vec \<Rightarrow> real" where
  "l2sq a b = sum_list (map (\<lambda>(x, y). (x - y)\<^sup>2) (zip a b))"

definition euclidean :: "vec \<Rightarrow> vec \<Rightarrow> real" where
  "euclidean a b = sqrt (l2sq a b)"

text \<open>
  Modelled from the spec: the similarity index is the library class \<open>faiss.IndexFlatL2\<close>,
  which is not code of the repository. Following the specification (sections 3, 4.3 and
  4.4) it is an in-memory structure over the chunk embeddings, kept in the order they were
  added, with exact Euclidean nearest-neighbour search: a search for \<open>k\<close> neighbours
  returns, for each query vector, the positions of the \<open>k\<close> stored vectors nearest to it,
  closest first, with their squared distances. The specification leaves a search for more
  neighbours than there are stored vectors undefined; the library then fills the missing
  entries with the label \<open>-1\<close> and the largest float as distance, which is the behaviour
  C9 is about. The library asserts that the vectors it is given have the index's dimension
  and that \<open>k\<close> is positive. The order among stored vectors at equal distance is not fixed
  by the library; here it is by position.
\<close>

record flat_index =
  dim :: nat
  vectors :: "vec list"

definition IndexFlatL2 :: "nat \<Rightarrow> flat_index" where
  "IndexFlatL2 d = \<lparr>dim = d, vectors = []\<rparr>"

definition add :: "flat_index \<Rightarrow> vec list \<Rightarrow> error + flat_index" where
  "add index xs =
     (if list_all (\<lambda>x. length x = dim index) xs
      then Inr (index\<lparr>vectors := vectors index @ xs\<rparr>)
      else Inl AssertionError)"

definition ntotal :: "flat_index \<Rightarrow> nat" where
  "ntotal index = length (vectors index)"

definition FLT_MAX :: real where
  "FLT_MAX = 340282346638528859811704183484516925440"

definition nearest :: "flat_index \<Rightarrow> vec \<Rightarrow> nat \<Rightarrow> nat list" where
  "nearest index x k =
     take k (sort_key (\<lambda>i. l2sq x (vectors index ! i)) [0..<ntotal index])"

definition search :: "flat_index \<Rightarrow> vec list \<Rightarrow> int \<Rightarrow> error + (real list list \<times> int list list)" where
  "search index xs k =
     (if \<not> list_all (\<lambda>x. length x = dim index) xs then Inl AssertionError
      else if k \<le> 0 then Inl AssertionError
      else Inr
        (map (\<lambda>x. map (\<lambda>i. l2sq x (vectors index ! i)) (nearest index x (nat k))
                  @ replicate (nat k - ntotal index) FLT_MAX) xs,
         map (\<lambda>x. map int (nearest index x (nat k))
                  @ replicate (nat k - ntotal index) (- 1)) xs))"

text \<open>
  \<^verbatim>\<open>
  chunk_embeddings = embedder.encode(chunks, show_progress_bar=False)
  embedding_dim = chunk_embeddings.shape[1]
  embeddings_np = np.array(chunk_embeddings)
  index = faiss.IndexFlatL2(embedding_dim)
  index.add(embeddings_np)
  \<close>
  The embeddings of an empty chunk list form an array with no second axis, so reading
  \<open>shape[1]\<close> raises.
\<close>

definition build_index :: "(string \<Rightarrow> vec) \<Rightarrow> string list \<Rightarrow> error + flat_index" where
  "build_index embedder chunks =
     (let chunk_embeddings = encode embedder chunks in
      if chunk_embeddings = [] then Inl IndexError
      else
        (let embedding_dim = length (hd chunk_embeddings);
             index = IndexFlatL2 embedding_dim
         in add index chunk_embeddings))"

text \<open>
  \<open>xs[i]\<close> for a Python list: a negative index counts from the end, and an index outside
  \<open>-len(xs) .. len(xs) - 1\<close> raises \<open>IndexError\<close>.
\<close>

definition py_index :: "'a list \<Rightarrow> int \<Rightarrow> error + 'a" where
  "py_index xs i =
     (let n = int (length xs) in
      if 0 \<le> i \<and> i < n then Inr (xs ! nat i)
      else if - n \<le> i \<and> i < 0 then Inr (xs ! nat (i + n))
      else Inl IndexError)"

text \<open>A list comprehension whose element expression can raise: the first error ends it.\<close>

fun comprehension :: "('a \<Rightarrow> error + 'b) \<Rightarrow> 'a list \<Rightarrow> error + 'b list" where
  "comprehension f [] = Inr []"
| "comprehension f (x # xs) =
     (case f x of
        Inl e \<Rightarrow> Inl e
      | Inr y \<Rightarrow> (case comprehension f xs of Inl e \<Rightarrow> Inl e | Inr ys \<Rightarrow> Inr (y # ys)))"

text \<open>
  \<^verbatim>\<open>
  def retrieve_relevant_chunks(query, embedder, index, chunks, k=2):
      query_embedding = embedder.encode([query])
      distances, indices = index.search(np.array(query_embedding), k)
      retrieved_chunks = [chunks[i] for i in indices[0]]
      return retrieved_chunks
  \<close>
\<close>

definition retrieve_relevant_chunks ::
  "string \<Rightarrow> (string \<Rightarrow> vec) \<Rightarrow> flat_index \<Rightarrow> string list \<Rightarrow> int \<Rightarrow> error + string list" where
  "retrieve_relevant_chunks query embedder index chunks k =
     (let query_embedding = encode embedder [query] in
      case search index query_embedding k of
        Inl e \<Rightarrow> Inl e
      | Inr (distances, indices) \<Rightarrow> comprehension (py_index chunks) (indices ! 0))"

section \<open>The generator's prompt\<close>

text \<open>
  \<^verbatim>\<open>
  context = "\n".join(relevant_chunks)
  prompt = f"Context: {context}\n\nQuery: {query}\nAnswer:"
  \<close>
\<close>

definition "context" :: "string list \<Rightarrow> string" where
  "context relevant_chunks = join [newline] relevant_chunks"

definition prompt :: "string list \<Rightarrow> string \<Rightarrow> string" where
  "prompt relevant_chunks query =
     ''Context: '' @ context relevant_chunks @ [newline, newline]
       @ ''Query: '' @ query @ [newline] @ ''Answer:''"

text \<open>
  The prompt as the specification words it: the label, the chunks one per line (a newline
  before every chunk but the first), a blank line, the query under its label, and the cue.
\<close>

definition stated_prompt :: "string list \<Rightarrow> string \<Rightarrow> string" where
  "stated_prompt relevant_chunks query =
     ''Context: ''
       @ (case relevant_chunks of [] \<Rightarrow> [] | c # cs \<Rightarrow> c @ concat (map (\<lambda>d. newline # d) cs))
       @ [newline] @ [newline] @ ''Query: '' @ query @ [newline] @ ''Answer:''"

section \<open>Properties of the Python primitives\<close>

lemma split_go_words:
  "list_all (\<lambda>c. \<not> isspace c) w \<Longrightarrow> list_all is_word (split_go w s)"
  by (induction s arbitrary: w) (auto simp: is_word_def)

lemma split_words: "list_all is_word (split text)"
  by (simp add: split_def split_go_words)

lemma split_go_nospace:
  "list_all (\<lambda>c. \<not> isspace c) w \<Longrightarrow> split_go acc (w @ rest) = split_go (acc @ w) rest"
  by (induction w arbitrary: acc) auto

lemma isspace_blank: "isspace CHR '' ''"
  by (simp add: isspace_def)

lemma split_go_word_blank:
  "is_word w \<Longrightarrow> split_go [] (w @ '' '' @ rest) = w # split_go [] rest"
  by (simp add: split_go_nospace is_word_def isspace_blank)

lemma split_go_word_end: "is_word w \<Longrightarrow> split_go [] w = [w]"
  using split_go_nospace [of w "[]" "[]"] by (simp add: is_word_def)

text \<open>Splitting a single-space join of words gives the words back.\<close>

lemma split_join: "list_all is_word ws \<Longrightarrow> split (join '' '' ws) = ws"
  unfolding split_def
proof (induction "'' ''" ws rule: join.induct)
  case 1
  show ?case by simp
next
  case (2 x)
  then show ?case by (simp add: split_go_word_end)
next
  case (3 x y ys)
  then show ?case using split_go_word_blank [of x "join '' '' (y # ys)"] by simp
qed

lemma join_nonempty: "ws \<noteq> [] \<Longrightarrow> list_all is_word ws \<Longrightarrow> join sep ws \<noteq> []"
  by (induction sep ws rule: join.induct) (auto simp: is_word_def)

lemma join_Cons: "join sep (x # xs) = x @ concat (map (\<lambda>y. sep @ y) xs)"
  by (induction sep "x # xs" arbitrary: x xs rule: join.induct) auto

lemma list_all_py_slice: "list_all P xs \<Longrightarrow> list_all P (py_slice xs i j)"
  unfolding py_slice_def Let_def list_all_iff
  by (meson in_set_dropD in_set_takeD)

section \<open>The iterations of the chunking loop\<close>

lemma ceil_div_step: "0 < s \<Longrightarrow> ceil_div a s = ceil_div (a - s) s + 1"
  unfolding ceil_div_def
proof -
  assume "0 < s"
  have "(- (a - s)) div s = (- a + s) div s" by (simp add: algebra_simps)
  also have "\<dots> = (- a) div s + 1" using \<open>0 < s\<close> div_add_self2 [of s "- a"] by simp
  finally show "- (- a div s) = - (- (a - s) div s) + 1" by simp
qed

lemma ceil_div_nonneg: "0 < s \<Longrightarrow> - s < a \<Longrightarrow> 0 \<le> ceil_div a s"
  unfolding ceil_div_def
proof -
  assume s: "0 < s" and a: "- s < a"
  have "(- a) div s \<le> (s - 1) div s" using s a by (intro zdiv_mono1) auto
  also have "\<dots> = 0" using s by (simp add: div_pos_pos_trivial)
  finally show "0 \<le> - (- a div s)" by simp
qed

lemma ceil_div_nonpos: "0 < s \<Longrightarrow> a \<le> 0 \<Longrightarrow> ceil_div a s \<le> 0"
  unfolding ceil_div_def by (simp add: pos_imp_zdiv_nonneg_iff)

lemma ceil_div_ceiling: "ceil_div a b = \<lceil>real_of_int a / real_of_int b\<rceil>"
  by (simp add: ceil_div_def ceiling_divide_eq_div)

text \<open>With a positive step the loop returns, after one iteration per window start.\<close>

lemma chunk_loop_unroll:
  "0 < chunk_size - overlap \<Longrightarrow>
   chunk_loop words chunk_size overlap chunks start =
     Some (chunks @ map (\<lambda>s. join '' '' (window words chunk_size s))
       (window_starts (int (length words)) (chunk_size - overlap) start))"
proof (induction "int (length words)" "chunk_size - overlap" start arbitrary: chunks
    rule: window_starts.induct)
  case (1 start)
  show ?case
  proof (cases "start < int (length words)")
    case True
    then show ?thesis
      using 1 by (subst chunk_loop.simps, subst window_starts.simps) (simp add: window_def Let_def)
  next
    case False
    then show ?thesis
      by (subst chunk_loop.simps, subst window_starts.simps) simp
  qed
qed

lemma chunk_text_unroll:
  "overlap < chunk_size \<Longrightarrow>
   chunk_text text chunk_size overlap =
     Some (map (\<lambda>s. join '' '' (window (split text) chunk_size s))
       (window_starts (int (length (split text))) (chunk_size - overlap) 0))"
  by (simp add: chunk_text_def chunk_loop_unroll)

text \<open>The window starts are the multiples of the step below the word count.\<close>

lemma window_starts_eq:
  "0 < step \<Longrightarrow>
   window_starts n step start =
     map (\<lambda>i. start + int i * step) [0..<nat (ceil_div (n - start) step)]"
proof (induction n step start rule: window_starts.induct)
  case (1 n step start)
  show ?case
  proof (cases "start < n")
    case True
    let ?m = "nat (ceil_div (n - (start + step)) step)"
    have nn: "0 \<le> ceil_div (n - (start + step)) step"
      using True 1(2) by (intro ceil_div_nonneg) auto
    have "ceil_div (n - start) step = ceil_div (n - (start + step)) step + 1"
      using ceil_div_step [OF 1(2), of "n - start"] by (simp add: algebra_simps)
    then have m: "nat (ceil_div (n - start) step) = Suc ?m" using nn by simp
    have "window_starts n step start = start # window_starts n step (start + step)"
      using True 1(2) by (subst window_starts.simps) simp
    also have "\<dots> = start # map (\<lambda>i. start + step + int i * step) [0..<?m]"
      using 1(1) True 1(2) by simp
    also have "\<dots> = map (\<lambda>i. start + int i * step) [0..<Suc ?m]"
      by (simp add: upt_conv_Cons map_Suc_upt [symmetric] algebra_simps del: upt_Suc)
    finally show ?thesis using m by simp
  next
    case False
    then have "ceil_div (n - start) step \<le> 0" using 1(2) by (intro ceil_div_nonpos) auto
    then show ?thesis using False by (subst window_starts.simps) simp
  qed
qed

lemma window_starts_range:
  "0 < step \<Longrightarrow> 0 \<le> start \<Longrightarrow>
   list_all (\<lambda>s. 0 \<le> s \<and> s < n) (window_starts n step start)"
proof (induction n step start rule: window_starts.induct)
  case (1 n step start)
  then show ?case by (subst window_starts.simps) auto
qed

lemma window_nonneg:
  "0 \<le> start \<Longrightarrow> 0 \<le> chunk_size \<Longrightarrow>
   window words chunk_size start = take (nat chunk_size) (drop (nat start) words)"
  by (cases "start < int (length words)")
     (auto simp: window_def py_slice_def slice_bound_def Let_def min_def max_def
        intro!: arg_cong2 [where f = take])

text \<open>
  Dropping the first \<open>overlap\<close> words of every window from \<open>start\<close> on leaves the words
  after position \<open>start + overlap\<close>, each once.
\<close>

lemma collapse_tail:
  assumes "0 \<le> overlap" "overlap < chunk_size" "0 \<le> start"
  shows "concat (map (\<lambda>s. drop (nat overlap) (take (nat chunk_size) (drop (nat s) words)))
           (window_starts (int (length words)) (chunk_size - overlap) start))
         = drop (nat (start + overlap)) words"
  using assms(3)
proof (induction "int (length words)" "chunk_size - overlap" start rule: window_starts.induct)
  case (1 start)
  show ?case
  proof (cases "start < int (length words)")
    case True
    have step: "0 < chunk_size - overlap" using assms by simp
    let ?X = "drop (nat (start + overlap)) words"
    have a: "drop (nat overlap) (take (nat chunk_size) (drop (nat start) words))
          = take (nat (chunk_size - overlap)) ?X"
      using assms 1(2) by (simp add: drop_take nat_add_distrib nat_diff_distrib add.commute)
    have b: "drop (nat (start + (chunk_size - overlap) + overlap)) words
          = drop (nat (chunk_size - overlap)) ?X"
      using assms 1(2) by (simp add: nat_add_distrib nat_diff_distrib add.commute)
    have "0 \<le> start + (chunk_size - overlap)" using step 1(2) by simp
    from 1(1) [OF _ this] True step
    have ih: "concat (map (\<lambda>s. drop (nat overlap) (take (nat chunk_size) (drop (nat s) words)))
           (window_starts (int (length words)) (chunk_size - overlap)
              (start + (chunk_size - overlap))))
         = drop (nat (chunk_size - overlap)) ?X"
      using b by simp
    show ?thesis
      using True step
      by (subst window_starts.simps) (simp add: a ih del: drop_drop)
  next
    case False
    then show ?thesis using assms 1(2) by (subst window_starts.simps) simp
  qed
qed

text \<open>
  A window is its first \<open>chunk_size - overlap\<close> words followed by the first \<open>overlap\<close>
  words of the next window: those are the words the two share.
\<close>

lemma window_shared:
  assumes "0 \<le> overlap" "overlap < chunk_size" "0 \<le> start"
  shows "window words chunk_size start =
     take (nat (chunk_size - overlap)) (window words chunk_size start)
       @ take (nat overlap) (window words chunk_size (start + (chunk_size - overlap)))"
proof -
  let ?step = "chunk_size - overlap"
  let ?A = "drop (nat start) words"
  have w: "nat chunk_size = nat ?step + nat overlap" using assms by simp
  have here: "window words chunk_size start = take (nat chunk_size) ?A"
    using assms by (intro window_nonneg) auto
  have "window words chunk_size (start + ?step) =
      take (nat chunk_size) (drop (nat (start + ?step)) words)"
    using assms by (intro window_nonneg) auto
  moreover have "nat (start + ?step) = nat ?step + nat start" using assms by simp
  ultimately have there: "window words chunk_size (start + ?step) =
      take (nat chunk_size) (drop (nat ?step) ?A)"
    by simp
  have t1: "take (nat ?step) (take (nat chunk_size) ?A) = take (nat ?step) ?A"
    using assms by (simp add: min_def)
  have t2: "take (nat overlap) (take (nat chunk_size) (drop (nat ?step) ?A))
      = take (nat overlap) (drop (nat ?step) ?A)"
    using assms by (simp add: min_def del: drop_drop)
  have "take (nat chunk_size) ?A = take (nat ?step) ?A @ take (nat overlap) (drop (nat ?step) ?A)"
    unfolding w by (rule take_add)
  then show ?thesis unfolding here there t1 t2 .
qed

text \<open>
  With a step that is zero or negative the loop never returns once it is entered: a
  returning call is never one with \<open>chunk_size \<le> overlap\<close> and a start below the word
  count.
\<close>

lemma chunk_loop_Some_step:
  assumes "chunk_loop words chunk_size overlap chunks start = Some r"
  shows "\<not> (chunk_size \<le> overlap \<and> start < int (length words))"
proof (rule chunk_loop.raw_induct
    [where P = "\<lambda>ws cs ov ch st res. \<not> (cs \<le> ov \<and> st < int (length ws))", OF _ assms])
  fix f ws cs ov ch st res
  assume ih: "\<And>ws cs ov ch st res. f ws cs ov ch st = Some res \<Longrightarrow>
                \<not> (cs \<le> ov \<and> st < int (length ws))"
    and body: "(if st < int (length ws) then
        (let end = min (st + cs) (int (length ws));
             chunk = join '' '' (py_slice ws st end)
         in f ws cs ov (ch @ [chunk]) (st + (cs - ov)))
      else Some ch) = Some res"
  show "\<not> (cs \<le> ov \<and> st < int (length ws))"
  proof
    assume h: "cs \<le> ov \<and> st < int (length ws)"
    then have lt: "st + (cs - ov) < int (length ws)" by simp
    from body h have "\<exists>c. f ws cs ov c (st + (cs - ov)) = Some res"
      by (auto simp: Let_def)
    then obtain c where "f ws cs ov c (st + (cs - ov)) = Some res" ..
    from ih [OF this] h lt show False by simp
  qed
qed

lemma chunk_loop_diverges:
  "chunk_size \<le> overlap \<Longrightarrow> start < int (length words) \<Longrightarrow>
   chunk_loop words chunk_size overlap chunks start = None"
  using chunk_loop_Some_step [of words chunk_size overlap chunks start]
  by (cases "chunk_loop words chunk_size overlap chunks start") auto

section \<open>Properties of the chunker\<close>

text \<open>
  C7. For the empty input text, \<open>chunk_text\<close> returns the empty sequence of chunks, for
  every window size and overlap.
\<close>

theorem chunk_text_empty: "chunk_text [] chunk_size overlap = Some []"
  by (simp add: chunk_text_def split_def chunk_loop.simps)

text \<open>
  C3. For every text and every window size and overlap with \<open>0 \<le> O < W\<close> (the overlap
  is a number of words), the chunks \<open>chunk_text\<close> returns reconstruct the word sequence
  of the text: the words of the chunks read in order, with the words shared between
  consecutive chunks collapsed, are exactly the whitespace-split words of the input. The
  words collapsed are shared indeed: the first \<open>O\<close> words of a chunk are the words that
  follow the first \<open>W - O\<close> words of the chunk before it.
\<close>

theorem chunk_text_reconstructs:
  assumes "0 \<le> overlap" "overlap < chunk_size"
  shows "\<exists>chunks. chunk_text text chunk_size overlap = Some chunks \<and>
     collapse_overlaps overlap chunks = split text \<and>
     (\<forall>i. Suc i < length chunks \<longrightarrow>
        split (chunks ! i) =
          take (nat (chunk_size - overlap)) (split (chunks ! i))
            @ take (nat overlap) (split (chunks ! Suc i)))"
proof -
  let ?ws = "split text"
  let ?n = "int (length ?ws)"
  let ?step = "chunk_size - overlap"
  let ?chunk = "\<lambda>s. join '' '' (window ?ws chunk_size s)"
  have step: "0 < ?step" using assms by simp
  have rt: "split (?chunk s) = window ?ws chunk_size s" for s
    unfolding window_def by (intro split_join list_all_py_slice split_words)
  have collapsed: "collapse_overlaps overlap (map ?chunk (window_starts ?n ?step 0)) = ?ws"
  proof (cases "?ws = []")
    case True
    then show ?thesis by (subst window_starts.simps) simp
  next
    case False
    have range: "list_all (\<lambda>s. 0 \<le> s \<and> s < ?n) (window_starts ?n ?step ?step)"
      using step by (intro window_starts_range) auto
    have "map (\<lambda>s. drop (nat overlap) (split (?chunk s))) (window_starts ?n ?step ?step)
        = map (\<lambda>s. drop (nat overlap) (take (nat chunk_size) (drop (nat s) ?ws)))
            (window_starts ?n ?step ?step)"
    proof (rule map_cong [OF refl])
      fix s assume "s \<in> set (window_starts ?n ?step ?step)"
      with range have "0 \<le> s" by (auto simp: list_all_iff)
      then show "drop (nat overlap) (split (?chunk s))
          = drop (nat overlap) (take (nat chunk_size) (drop (nat s) ?ws))"
        using assms by (simp add: rt) (simp add: window_nonneg)
    qed
    then have "concat (map (\<lambda>s. drop (nat overlap) (split (?chunk s)))
        (window_starts ?n ?step ?step))
      = concat (map (\<lambda>s. drop (nat overlap) (take (nat chunk_size) (drop (nat s) ?ws)))
        (window_starts ?n ?step ?step))"
      by (rule arg_cong)
    also have "\<dots> = drop (nat chunk_size) ?ws"
      using collapse_tail [OF assms, of ?step ?ws] step by simp
    finally have tail: "concat (map (\<lambda>s. drop (nat overlap) (split (?chunk s)))
        (window_starts ?n ?step ?step)) = drop (nat chunk_size) ?ws" .
    have first: "split (?chunk 0) = take (nat chunk_size) ?ws"
      using assms by (simp add: rt) (simp add: window_nonneg)
    have "window_starts ?n ?step 0 = 0 # window_starts ?n ?step ?step"
      using False step by (subst window_starts.simps) simp
    then show ?thesis
      using tail first by (simp add: comp_def)
  qed
  let ?m = "nat (ceil_div ?n ?step)"
  have starts: "window_starts ?n ?step 0 = map (\<lambda>i. int i * ?step) [0..<?m]"
    using step by (simp add: window_starts_eq)
  have shared: "split (map ?chunk (window_starts ?n ?step 0) ! i) =
      take (nat ?step) (split (map ?chunk (window_starts ?n ?step 0) ! i))
        @ take (nat overlap) (split (map ?chunk (window_starts ?n ?step 0) ! Suc i))"
    if "Suc i < length (map ?chunk (window_starts ?n ?step 0))" for i
  proof -
    from that have i: "Suc i < ?m" by (simp add: starts)
    have "window ?ws chunk_size (int i * ?step) =
        take (nat ?step) (window ?ws chunk_size (int i * ?step))
          @ take (nat overlap) (window ?ws chunk_size (int i * ?step + ?step))"
      using assms step by (intro window_shared) auto
    then show ?thesis
      using i by (simp add: starts rt algebra_simps)
  qed
  show ?thesis
    using collapsed shared assms(2)
    by (intro exI [of _ "map ?chunk (window_starts ?n ?step 0)"] conjI allI impI)
       (simp_all add: chunk_text_unroll)
qed

text \<open>Window 3 and overlap 1 on five words.\<close>

theorem chunk_text_reconstructs_witness:
  "(0::int) \<le> 1 \<and> (1::int) < 3 \<and>
   (\<exists>chunks. chunk_text ''a b c d e'' 3 1 = Some chunks \<and>
      collapse_overlaps 1 chunks = split ''a b c d e'')"
proof -
  have h: "(0::int) \<le> 1" "(1::int) < 3" by simp_all
  from chunk_text_reconstructs [OF h, of "''a b c d e''"]
  obtain chunks where "chunk_text ''a b c d e'' 3 1 = Some chunks"
    and "collapse_overlaps 1 chunks = split ''a b c d e''"
    by (elim exE conjE)
  with h show ?thesis by (intro conjI exI [of _ chunks])
qed

text \<open>
  C6. For every text and every \<open>0 < O < W\<close>, \<open>chunk_text\<close> terminates: it returns after
  finitely many iterations, the \<open>i\<close>-th of which (counting from 0) has the window start
  \<open>i (W - O)\<close>; the starts increase by \<open>W - O\<close> and the loop ends with the first start
  that reaches the word count.
\<close>

theorem chunk_text_terminates:
  "0 < overlap \<Longrightarrow> overlap < chunk_size \<Longrightarrow>
   chunk_text text chunk_size overlap =
     Some (map (\<lambda>i. join '' '' (window (split text) chunk_size (int i * (chunk_size - overlap))))
       [0..<nat (ceil_div (int (length (split text))) (chunk_size - overlap))])"
  by (simp add: chunk_text_unroll window_starts_eq comp_def)

text \<open>Window 2 and overlap 1 on three words: three iterations.\<close>

theorem chunk_text_terminates_witness:
  "(0::int) < 1 \<and> (1::int) < 2 \<and> chunk_text ''a b c'' 2 1 = Some [''a b'', ''b c'', ''c'']"
  using chunk_text_terminates [of 1 2 "''a b c''"]
  by (simp add: split_def isspace_def ceil_div_def window_def py_slice_def slice_bound_def upt_conv_Cons)

text \<open>
  C10. For every text and every \<open>0 < O < W\<close>, every chunk \<open>chunk_text\<close> returns is
  non-empty: it is the single-space join of at least one word.
\<close>

theorem chunk_text_chunks_nonempty:
  assumes "0 < overlap" "overlap < chunk_size"
  shows "\<exists>chunks. chunk_text text chunk_size overlap = Some chunks \<and>
     (\<forall>c \<in> set chunks. c \<noteq> [] \<and>
        (\<exists>ws. ws \<noteq> [] \<and> list_all is_word ws \<and> c = join '' '' ws))"
proof -
  let ?ws = "split text"
  let ?starts = "window_starts (int (length ?ws)) (chunk_size - overlap) 0"
  have range: "list_all (\<lambda>s. 0 \<le> s \<and> s < int (length ?ws)) ?starts"
    using assms by (intro window_starts_range) auto
  have "c \<noteq> [] \<and> (\<exists>ws. ws \<noteq> [] \<and> list_all is_word ws \<and> c = join '' '' ws)"
    if "c \<in> set (map (\<lambda>s. join '' '' (window ?ws chunk_size s)) ?starts)" for c
  proof -
    from that obtain s where s: "s \<in> set ?starts" and c: "c = join '' '' (window ?ws chunk_size s)"
      by auto
    from s range have s0: "0 \<le> s" and sn: "s < int (length ?ws)" by (auto simp: list_all_iff)
    have w: "window ?ws chunk_size s = take (nat chunk_size) (drop (nat s) ?ws)"
      using s0 assms by (intro window_nonneg) auto
    have ne: "window ?ws chunk_size s \<noteq> []"
      using s0 sn assms by (simp add: w)
    have words: "list_all is_word (window ?ws chunk_size s)"
      unfolding window_def by (intro list_all_py_slice split_words)
    have "join '' '' (window ?ws chunk_size s) \<noteq> []"
      using ne words by (rule join_nonempty)
    with ne words c show ?thesis
      by (intro conjI exI [of _ "window ?ws chunk_size s"]) simp_all
  qed
  then have "\<forall>c \<in> set (map (\<lambda>s. join '' '' (window ?ws chunk_size s)) ?starts).
      c \<noteq> [] \<and> (\<exists>ws. ws \<noteq> [] \<and> list_all is_word ws \<and> c = join '' '' ws)"
    by blast
  then show ?thesis unfolding chunk_text_unroll [OF assms(2)] by blast
qed

text \<open>Window 2 and overlap 1 on three words.\<close>

theorem chunk_text_chunks_nonempty_witness:
  "(0::int) < 1 \<and> (1::int) < 2 \<and>
   (\<exists>chunks. chunk_text ''a b c'' 2 1 = Some chunks \<and> list_all (\<lambda>c. c \<noteq> []) chunks)"
proof -
  have h: "(0::int) < 1" "(1::int) < 2" by simp_all
  from chunk_text_chunks_nonempty [OF h, of "''a b c''"]
  obtain chunks where c: "chunk_text ''a b c'' 2 1 = Some chunks"
    and ne: "\<forall>c \<in> set chunks. c \<noteq> [] \<and>
        (\<exists>ws. ws \<noteq> [] \<and> list_all is_word ws \<and> c = join '' '' ws)"
    by (elim exE conjE)
  from ne have "list_all (\<lambda>c. c \<noteq> []) chunks" unfolding list_all_iff by fast
  with c h show ?thesis by (intro conjI exI [of _ chunks])
qed

text \<open>
  C2 (as the code has it). For every text with \<open>n\<close> words and every overlap below the
  window size, \<open>chunk_text\<close> returns exactly \<open>ceil(n / (W - O))\<close> chunks: one per window
  start \<open>0, W - O, 2 (W - O), ...\<close> below \<open>n\<close>.
\<close>

theorem chunk_text_count:
  "overlap < chunk_size \<Longrightarrow>
   \<exists>chunks. chunk_text text chunk_size overlap = Some chunks \<and>
     int (length chunks) = ceil_div (int (length (split text))) (chunk_size - overlap)"
proof -
  assume h: "overlap < chunk_size"
  have "0 \<le> ceil_div (int (length (split text))) (chunk_size - overlap)"
    using h by (intro ceil_div_nonneg) auto
  then show ?thesis
    using h by (simp add: chunk_text_unroll window_starts_eq)
qed

text \<open>Three words, window 3 and overlap 1.\<close>

theorem chunk_text_count_witness:
  "(1::int) < 3 \<and> (\<exists>chunks. chunk_text ''a b c'' 3 1 = Some chunks \<and>
     int (length chunks) = ceil_div (int (length (split ''a b c''))) (3 - 1))"
  using chunk_text_count [of 1 3 "''a b c''"] by simp

text \<open>
  C2 (as stated) fails. Three words with window 3 and overlap 1 give two chunks
  (\<open>a b c\<close> and \<open>c\<close>), where the stated count for \<open>0 < n \<le> W\<close> is 1; seven words with
  window 4 and overlap 2 give four chunks, where the stated count
  \<open>ceil((n - O) / (W - O))\<close> is 3.
\<close>

theorem chunk_count_counterexample:
  "length (split ''a b c'') = 3 \<and> map_option length (chunk_text ''a b c'' 3 1) = Some 2 \<and>
   stated_chunk_count 3 3 1 = 1 \<and>
   length (split ''a b c d e f g'') = 7 \<and>
   map_option length (chunk_text ''a b c d e f g'' 4 2) = Some 4 \<and>
   stated_chunk_count 7 4 2 = 3"
  by code_simp

text \<open>
  C1 (as the code has it). \<open>chunk_text\<close> has no guard on its configuration and raises
  nothing. With an overlap at least the window size the step \<open>chunk_size - overlap\<close> is
  zero or negative, the start never passes the word count, and the call never returns
  when the text has at least one word; when the text has no word (it is empty or all
  whitespace) the loop is not entered and the empty list is returned.
\<close>

theorem chunk_text_overlap_ge_size:
  "chunk_size \<le> overlap \<Longrightarrow>
   chunk_text text chunk_size overlap = (if split text = [] then Some [] else None)"
  by (cases "split text = []") (simp_all add: chunk_text_def chunk_loop_diverges, subst chunk_loop.simps, simp)

text \<open>A call with overlap above the window size: no return on a text with words, the empty list on a blank text.\<close>

theorem chunk_text_overlap_ge_size_witness:
  "(2::int) \<le> 3 \<and> chunk_text ''a b'' 2 3 = None \<and> chunk_text ''  '' 2 3 = Some []"
  using chunk_text_overlap_ge_size [of 2 3 "''a b''"] chunk_text_overlap_ge_size [of 2 3 "''  ''"]
  by (simp add: split_def isspace_def)

text \<open>
  C1 (as stated) fails: with overlap equal to the window size (text \<open>a\<close>, window 1,
  overlap 1) and with a larger overlap (text \<open>a b\<close>, window 1, overlap 2) the call does
  not raise a configuration error; it never returns.
\<close>

theorem chunk_text_overlap_not_rejected:
  "chunk_text ''a'' 1 1 = None \<and> chunk_text ''a b'' 1 2 = None"
  by (simp add: chunk_text_def chunk_loop_diverges split_def isspace_def)

section \<open>Properties of the extractor\<close>

lemma extract_loop_eq:
  "extract_loop i pages acc =
     acc @ concat (map (\<lambda>(j, page_text). if page_text = [] then [] else page_marker j @ page_text)
       (enumerate i pages))"
  by (induction pages arbitrary: i acc) auto

text \<open>
  C5. For every PDF, \<open>extract_text_from_pdf\<close> returns the concatenation, in page order,
  of one block per page: for a page whose extraction is non-empty, the marker
  \<open>--- Page N ---\<close> (between two newlines, \<open>N\<close> the 1-indexed page number) followed by
  the page's text; for a page whose extraction is empty, nothing. In particular a PDF
  with one page of text \<open>hello world\<close> and one empty page, in either order, yields a text
  with exactly one page marker.
\<close>

theorem extract_text_pages:
  "extract_text_from_pdf pages =
     concat (map (\<lambda>(i, page_text). if page_text = [] then []
         else [newline] @ ''--- Page '' @ str_nat (i + 1) @ '' ---'' @ [newline] @ page_text)
       (enumerate 0 pages))
   \<and> extract_text_from_pdf [''hello world'', []]
       = [newline] @ ''--- Page 1 ---'' @ [newline] @ ''hello world''
   \<and> count_occurrences ''--- Page '' (extract_text_from_pdf [''hello world'', []]) = 1
   \<and> extract_text_from_pdf [[], ''hello world'']
       = [newline] @ ''--- Page 2 ---'' @ [newline] @ ''hello world''
   \<and> count_occurrences ''--- Page '' (extract_text_from_pdf [[], ''hello world'']) = 1"
proof (intro conjI)
  show "extract_text_from_pdf pages =
     concat (map (\<lambda>(i, page_text). if page_text = [] then []
         else [newline] @ ''--- Page '' @ str_nat (i + 1) @ '' ---'' @ [newline] @ page_text)
       (enumerate 0 pages))"
    unfolding extract_text_from_pdf_def extract_loop_eq page_marker_def
    by (simp cong: if_cong)
  have one: "str_nat (Suc 0) = ''1''" and two: "str_nat (Suc (Suc 0)) = ''2''"
    by code_simp+
  have a: "extract_text_from_pdf [''hello world'', []]
       = [newline] @ ''--- Page 1 ---'' @ [newline] @ ''hello world''"
    by (simp add: extract_text_from_pdf_def page_marker_def one)
  have b: "extract_text_from_pdf [[], ''hello world'']
       = [newline] @ ''--- Page 2 ---'' @ [newline] @ ''hello world''"
    by (simp add: extract_text_from_pdf_def page_marker_def one two)
  show "extract_text_from_pdf [''hello world'', []]
       = [newline] @ ''--- Page 1 ---'' @ [newline] @ ''hello world''" by (rule a)
  show "extract_text_from_pdf [[], ''hello world'']
       = [newline] @ ''--- Page 2 ---'' @ [newline] @ ''hello world''" by (rule b)
  show "count_occurrences ''--- Page '' (extract_text_from_pdf [''hello world'', []]) = 1"
    unfolding a by (simp add: newline_def)
  show "count_occurrences ''--- Page '' (extract_text_from_pdf [[], ''hello world'']) = 1"
    unfolding b by (simp add: newline_def)
qed

section \<open>Properties of the generator's prompt\<close>

text \<open>
  C8. For every retrieved chunk sequence and query, the prompt is \<open>Context: \<close> followed
  by the chunks joined with newlines, then a blank line, then \<open>Query: \<close> followed by the
  query, then a newline and the cue \<open>Answer:\<close>.
\<close>

theorem prompt_layout:
  "prompt relevant_chunks query = stated_prompt relevant_chunks query"
  by (cases relevant_chunks) (simp_all add: prompt_def stated_prompt_def context_def join_Cons)

section \<open>Properties of the retriever\<close>

lemma py_index_valid: "i < length xs \<Longrightarrow> py_index xs (int i) = Inr (xs ! i)"
  by (simp add: py_index_def)

lemma py_index_minus_one: "xs \<noteq> [] \<Longrightarrow> py_index xs (- 1) = Inr (last xs)"
  by (simp add: py_index_def last_conv_nth nat_diff_distrib' Suc_leI)

lemma comprehension_positions:
  "list_all (\<lambda>i. i < length xs) positions \<Longrightarrow>
   comprehension (py_index xs) (map int positions @ rest) =
     (case comprehension (py_index xs) rest of
        Inl e \<Rightarrow> Inl e
      | Inr ys \<Rightarrow> Inr (map (\<lambda>i. xs ! i) positions @ ys))"
  by (induction positions) (auto simp: py_index_valid split: sum.splits)

lemma comprehension_padding:
  "xs \<noteq> [] \<Longrightarrow> comprehension (py_index xs) (replicate m (- 1)) = Inr (replicate m (last xs))"
  by (induction m) (simp_all add: py_index_minus_one)

lemma nearest_length: "length (nearest index x k) = min k (ntotal index)"
  by (simp add: nearest_def min.commute)

lemma nearest_range: "list_all (\<lambda>i. i < ntotal index) (nearest index x k)"
  unfolding nearest_def list_all_iff by (auto dest!: in_set_takeD)

lemma nearest_distinct: "distinct (nearest index x k)"
  by (simp add: nearest_def)

lemma nearest_sorted:
  "sorted (map (\<lambda>i. l2sq x (vectors index ! i)) (nearest index x k))"
  unfolding nearest_def take_map [symmetric] by (intro sorted_wrt_take sorted_sort_key)

lemma sorted_map_sqrt: "sorted xs \<Longrightarrow> sorted (map sqrt xs)"
  by (induction xs) auto

lemma build_index_ok:
  assumes "\<And>s. length (embedder s) = d" "chunks \<noteq> []"
  shows "build_index embedder chunks = Inr \<lparr>dim = d, vectors = map embedder chunks\<rparr>"
  using assms
  by (simp add: build_index_def encode_def IndexFlatL2_def add_def list_all_iff Let_def hd_map)

lemma comprehension_labels:
  assumes "list_all (\<lambda>i. i < length xs) positions" "xs \<noteq> []"
  shows "comprehension (py_index xs) (map int positions @ replicate m (- 1)) =
     Inr (map (\<lambda>i. xs ! i) positions @ replicate m (last xs))"
  using comprehension_positions [OF assms(1), of "replicate m (- 1)"]
    comprehension_padding [OF assms(2), of m]
  by simp

lemma retrieve_eq:
  assumes "\<And>s. length (embedder s) = d" "chunks \<noteq> []" "0 < k"
  shows "retrieve_relevant_chunks query embedder \<lparr>dim = d, vectors = map embedder chunks\<rparr> chunks k =
     Inr (map (\<lambda>i. chunks ! i)
            (nearest \<lparr>dim = d, vectors = map embedder chunks\<rparr> (embedder query) (nat k))
          @ replicate (nat k - length chunks) (last chunks))"
proof -
  let ?index = "\<lparr>dim = d, vectors = map embedder chunks\<rparr>"
  have n: "ntotal ?index = length chunks" by (simp add: ntotal_def)
  have "list_all (\<lambda>i. i < length chunks) (nearest ?index (embedder query) (nat k))"
    using nearest_range [of ?index] by (simp add: n)
  from comprehension_labels [OF this assms(2)] show ?thesis
    using assms(1,3)
    by (simp add: retrieve_relevant_chunks_def search_def encode_def n)
qed

text \<open>
  C4. For every chunk sequence of length \<open>N\<close> indexed with a fixed-dimension embedder,
  every query and every \<open>1 \<le> k \<le> N\<close>, \<open>retrieve_relevant_chunks\<close> returns exactly \<open>k\<close>
  chunks, each looked up in the chunk sequence at one of \<open>k\<close> different positions, in
  the order of non-decreasing Euclidean distance between the query embedding and the
  chunk's embedding.
\<close>

theorem retrieve_top_k:
  assumes "\<And>s. length (embedder s) = d" "1 \<le> k" "k \<le> int (length chunks)"
  shows "\<exists>index retrieved positions.
     build_index embedder chunks = Inr index \<and>
     retrieve_relevant_chunks query embedder index chunks k = Inr retrieved \<and>
     length retrieved = nat k \<and>
     retrieved = map (\<lambda>i. chunks ! i) positions \<and>
     distinct positions \<and> list_all (\<lambda>i. i < length chunks) positions \<and>
     set retrieved \<subseteq> set chunks \<and>
     sorted (map (\<lambda>c. euclidean (embedder query) (embedder c)) retrieved)"
proof -
  let ?index = "\<lparr>dim = d, vectors = map embedder chunks\<rparr>"
  let ?pos = "nearest ?index (embedder query) (nat k)"
  have ne: "chunks \<noteq> []" using assms(2,3) by auto
  have n: "ntotal ?index = length chunks" by (simp add: ntotal_def)
  have range: "list_all (\<lambda>i. i < length chunks) ?pos"
    using nearest_range [of ?index] by (simp add: n)
  have len: "length ?pos = nat k"
    using assms(2,3) by (simp add: nearest_length n)
  have r: "retrieve_relevant_chunks query embedder ?index chunks k = Inr (map (\<lambda>i. chunks ! i) ?pos)"
    using retrieve_eq [OF assms(1) ne, of k query] assms(2,3) by simp
  have sub: "set (map (\<lambda>i. chunks ! i) ?pos) \<subseteq> set chunks"
    using range by (auto simp: list_all_iff)
  have eq: "map (\<lambda>i. l2sq (embedder query) (vectors ?index ! i)) ?pos
      = map (\<lambda>c. l2sq (embedder query) (embedder c)) (map (\<lambda>i. chunks ! i) ?pos)"
    using range by (auto simp: list_all_iff)
  have "sorted (map (\<lambda>c. l2sq (embedder query) (embedder c)) (map (\<lambda>i. chunks ! i) ?pos))"
    using nearest_sorted [of "embedder query" ?index "nat k"] unfolding eq .
  then have "sorted (map sqrt (map (\<lambda>c. l2sq (embedder query) (embedder c)) (map (\<lambda>i. chunks ! i) ?pos)))"
    by (rule sorted_map_sqrt)
  then have srt: "sorted (map (\<lambda>c. euclidean (embedder query) (embedder c)) (map (\<lambda>i. chunks ! i) ?pos))"
    by (simp add: euclidean_def comp_def)
  show ?thesis
    using build_index_ok [OF assms(1) ne] r len nearest_distinct [of ?index "embedder query" "nat k"]
      range sub srt
    by (intro exI [of _ ?index] exI [of _ "map (\<lambda>i. chunks ! i) ?pos"] exI [of _ ?pos]) simp
qed

text \<open>Three chunks embedded by their length, the query \<open>c\<close> of length 1, and \<open>k = 2\<close>.\<close>

theorem retrieve_top_k_witness:
  "(1::int) \<le> 2 \<and> 2 \<le> int (length [''aaaa'', ''b'', ''cc'']) \<and>
   build_index (\<lambda>s. [real (length s)]) [''aaaa'', ''b'', ''cc'']
     = Inr \<lparr>dim = 1, vectors = [[4], [1], [2]]\<rparr> \<and>
   retrieve_relevant_chunks ''c'' (\<lambda>s. [real (length s)])
     \<lparr>dim = 1, vectors = [[4], [1], [2]]\<rparr> [''aaaa'', ''b'', ''cc''] 2 = Inr [''b'', ''cc'']"
  using retrieve_top_k [of "\<lambda>s. [real (length s)]" 1 2 "[''aaaa'', ''b'', ''cc'']" "''c''"]
  by (simp add: retrieve_relevant_chunks_def build_index_def encode_def IndexFlatL2_def add_def
      search_def nearest_def ntotal_def l2sq_def py_index_def upt_conv_Cons)

text \<open>
  C9. For every non-empty chunk sequence of length \<open>N\<close> and every \<open>k > N\<close>,
  \<open>retrieve_relevant_chunks\<close> raises no error and does not clamp: the search returns \<open>k\<close>
  labels of which those past the first \<open>N\<close> are \<open>-1\<close>, \<open>chunks[-1]\<close> is the last chunk,
  and the returned list has length \<open>k\<close> and holds the last chunk at every position from
  \<open>N\<close> on.
\<close>

theorem retrieve_beyond_corpus:
  assumes "\<And>s. length (embedder s) = d" "chunks \<noteq> []" "int (length chunks) < k"
  shows "\<exists>index distances labels retrieved.
     build_index embedder chunks = Inr index \<and>
     search index (encode embedder [query]) k = Inr (distances, [labels]) \<and>
     length labels = nat k \<and>
     drop (length chunks) labels = replicate (nat k - length chunks) (- 1) \<and>
     retrieve_relevant_chunks query embedder index chunks k = Inr retrieved \<and>
     length retrieved = nat k \<and>
     drop (length chunks) retrieved = replicate (nat k - length chunks) (last chunks)"
proof -
  let ?index = "\<lparr>dim = d, vectors = map embedder chunks\<rparr>"
  let ?pos = "nearest ?index (embedder query) (nat k)"
  let ?pad = "nat k - length chunks"
  have k: "0 < k" using assms(3) by simp
  have n: "ntotal ?index = length chunks" by (simp add: ntotal_def)
  have len: "length ?pos = length chunks"
    using assms(3) by (simp add: nearest_length n)
  have total: "length chunks + ?pad = nat k" using assms(3) by simp
  have s: "search ?index (encode embedder [query]) k =
      Inr ([map (\<lambda>i. l2sq (embedder query) (vectors ?index ! i)) ?pos @ replicate ?pad FLT_MAX],
           [map int ?pos @ replicate ?pad (- 1)])"
    using assms(1) k by (simp add: search_def encode_def n)
  show ?thesis
    using build_index_ok [OF assms(1,2)] s retrieve_eq [OF assms(1,2) k, of query] len total
    by (intro exI [of _ ?index] exI [of _ "map int ?pos @ replicate ?pad (- 1)"]
          exI [of _ "[map (\<lambda>i. l2sq (embedder query) (vectors ?index ! i)) ?pos @ replicate ?pad FLT_MAX]"]
          exI [of _ "map (\<lambda>i. chunks ! i) ?pos @ replicate ?pad (last chunks)"]) simp
qed

text \<open>Three chunks and \<open>k = 5\<close>: the last chunk fills positions 3 and 4.\<close>

theorem retrieve_beyond_corpus_witness:
  "[''aaaa'', ''b'', ''cc''] \<noteq> [] \<and> int (length [''aaaa'', ''b'', ''cc'']) < 5 \<and>
   build_index (\<lambda>s. [real (length s)]) [''aaaa'', ''b'', ''cc'']
     = Inr \<lparr>dim = 1, vectors = [[4], [1], [2]]\<rparr> \<and>
   search \<lparr>dim = 1, vectors = [[4], [1], [2]]\<rparr> [[1]] 5
     = Inr ([[0, 1, 9, FLT_MAX, FLT_MAX]], [[1, 2, 0, - 1, - 1]]) \<and>
   retrieve_relevant_chunks ''c'' (\<lambda>s. [real (length s)])
     \<lparr>dim = 1, vectors = [[4], [1], [2]]\<rparr> [''aaaa'', ''b'', ''cc''] 5
     = Inr [''b'', ''cc'', ''aaaa'', ''cc'', ''cc'']"
  using retrieve_beyond_corpus [of "\<lambda>s. [real (length s)]" 1 "[''aaaa'', ''b'', ''cc'']" 5 "''c''"]
  by (simp add: retrieve_relevant_chunks_def build_index_def encode_def IndexFlatL2_def add_def
      search_def nearest_def ntotal_def l2sq_def py_index_def upt_conv_Cons eval_nat_numeral)

end
